theory Spec2Isabelle
  imports Complex_Main "HOL-Library.Word" "HOL-Library.Multiset" "HOL-Library.Sublist"
begin

section \<open>JavaScript strings\<close>

text \<open>
  A JavaScript string is a sequence of UTF-16 code units. String literals of the source
  are ASCII and are written with \<open>ascii\<close>.
\<close>

type_synonym jsstring = "16 word list"

definition ascii :: "string \<Rightarrow> jsstring" where
  "ascii s = map of_char s"

text \<open>
  \<open>String.prototype.trim\<close> removes white space and line terminators from both ends:
  TAB, LF, VT, FF, CR, SP, NBSP, U+1680, U+2000..U+200A, LS, PS, U+202F, U+205F, U+3000
  and U+FEFF.
\<close>

definition is_js_space :: "16 word \<Rightarrow> bool" where
  "is_js_space c \<longleftrightarrow>
     (0x09 \<le> c \<and> c \<le> 0x0D) \<or> c = 0x20 \<or> c = 0xA0 \<or> c = 0x1680 \<or>
     (0x2000 \<le> c \<and> c \<le> 0x200A) \<or> c = 0x2028 \<or> c = 0x2029 \<or> c = 0x202F \<or>
     c = 0x205F \<or> c = 0x3000 \<or> c = 0xFEFF"

definition trim :: "jsstring \<Rightarrow> jsstring" where
  "trim s = rev (dropWhile is_js_space (rev (dropWhile is_js_space s)))"

text \<open>Truthiness of an optional string: \<open>undefined\<close>, \<open>null\<close> and \<open>""\<close> are falsy.\<close>

fun truthy :: "jsstring option \<Rightarrow> bool" where
  "truthy None = False"
| "truthy (Some s) = (s \<noteq> [])"

text \<open>\<open>x || d\<close> on an optional string \<open>x\<close> and a string \<open>d\<close>.\<close>

definition or_else :: "jsstring option \<Rightarrow> jsstring \<Rightarrow> jsstring" where
  "or_else x d = (if truthy x then the x else d)"

section \<open>Movie records\<close>

text \<open>
  The elements of \<open>data.results\<close>: objects of the remote API. A field is \<open>None\<close> when it is
  absent or \<open>null\<close>. \<open>vote_average\<close> is \<open>Some\<close> exactly when \<open>typeof\<close> gives \<open>"number"\<close>;
  a number is a finite JSON number, modelled as a rational.
\<close>

record movie =
  movie_id :: nat
  title :: "jsstring option"
  release_date :: "jsstring option"
  vote_average :: "rat option"
  poster_path :: "jsstring option"

text \<open>The two source files of the component.\<close>

datatype variant = MovieJs | Part000

section \<open>Result presenter: sortedMovies\<close>

text \<open>
  \<open>new Date(s).getTime()\<close> is the host's date parser; \<open>None\<close> stands for \<open>NaN\<close> (an
  invalid date). It is a parameter of \<open>dateVal\<close>.
\<close>

type_synonym date_parser = "jsstring \<Rightarrow> rat option"

definition dateVal :: "date_parser \<Rightarrow> movie \<Rightarrow> rat" where
  "dateVal P m =
     (let t = (if truthy (release_date m) then P (the (release_date m)) else Some 0)
      in case t of Some x \<Rightarrow> x | None \<Rightarrow> 0)"

definition ratingVal :: "movie \<Rightarrow> rat" where
  "ratingVal m = (case vote_average m of Some x \<Rightarrow> x | None \<Rightarrow> 0)"

text \<open>
  \<open>Array.prototype.sort\<close> with a comparator: a stable sort (ECMAScript 2019), here by
  insertion. \<open>cmp a b \<le> 0\<close> keeps \<open>a\<close> in front of \<open>b\<close>.
\<close>

fun insert_cmp :: "('a \<Rightarrow> 'a \<Rightarrow> rat) \<Rightarrow> 'a \<Rightarrow> 'a list \<Rightarrow> 'a list" where
  "insert_cmp cmp x [] = [x]"
| "insert_cmp cmp x (y # ys) =
     (if cmp x y \<le> 0 then x # y # ys else y # insert_cmp cmp x ys)"

fun js_sort :: "('a \<Rightarrow> 'a \<Rightarrow> rat) \<Rightarrow> 'a list \<Rightarrow> 'a list" where
  "js_sort cmp [] = []"
| "js_sort cmp (x # xs) = insert_cmp cmp x (js_sort cmp xs)"

text \<open>The sort keys of the two files.\<close>

definition key_release_asc :: "variant \<Rightarrow> jsstring" where
  "key_release_asc v = (case v of MovieJs \<Rightarrow> ascii ''release_asc'' | Part000 \<Rightarrow> ascii ''release_date.asc'')"

definition key_release_desc :: "variant \<Rightarrow> jsstring" where
  "key_release_desc v = (case v of MovieJs \<Rightarrow> ascii ''release_desc'' | Part000 \<Rightarrow> ascii ''release_date.desc'')"

definition key_rating_asc :: "variant \<Rightarrow> jsstring" where
  "key_rating_asc v = (case v of MovieJs \<Rightarrow> ascii ''rating_asc'' | Part000 \<Rightarrow> ascii ''vote_average.asc'')"

definition key_rating_desc :: "variant \<Rightarrow> jsstring" where
  "key_rating_desc v = (case v of MovieJs \<Rightarrow> ascii ''rating_desc'' | Part000 \<Rightarrow> ascii ''vote_average.desc'')"

text \<open>The \<open>switch (sort)\<close> of both files.\<close>

definition sort_switch :: "date_parser \<Rightarrow> variant \<Rightarrow> jsstring \<Rightarrow> movie list \<Rightarrow> movie list" where
  "sort_switch P v sort' copy =
     (if sort' = key_release_asc v then js_sort (\<lambda>a b. dateVal P a - dateVal P b) copy
      else if sort' = key_release_desc v then js_sort (\<lambda>a b. dateVal P b - dateVal P a) copy
      else if sort' = key_rating_asc v then js_sort (\<lambda>a b. ratingVal a - ratingVal b) copy
      else if sort' = key_rating_desc v then js_sort (\<lambda>a b. ratingVal b - ratingVal a) copy
      else copy)"

text \<open>
  \<open>sortedMovies\<close>. The second file returns \<open>movies\<close> as it is when \<open>query\<close> or \<open>sort\<close> is
  the empty string (\<open>if (!query || !sort) return movies\<close>).
\<close>

definition sortedMovies :: "date_parser \<Rightarrow> variant \<Rightarrow> jsstring \<Rightarrow> jsstring \<Rightarrow> movie list \<Rightarrow> movie list" where
  "sortedMovies P v query sort' movies =
     (case v of
        MovieJs \<Rightarrow> sort_switch P v sort' movies
      | Part000 \<Rightarrow> if query = [] \<or> sort' = [] then movies else sort_switch P v sort' movies)"

text \<open>The value the comparator of a sort key compares; 0 where the key sorts nothing.\<close>

definition comparison_key :: "date_parser \<Rightarrow> variant \<Rightarrow> jsstring \<Rightarrow> movie \<Rightarrow> rat" where
  "comparison_key P v sort' m =
     (if sort' = key_release_asc v \<or> sort' = key_release_desc v then dateVal P m
      else if sort' = key_rating_asc v \<or> sort' = key_rating_desc v then ratingVal m
      else 0)"

section \<open>Display records\<close>

definition IMG_BASE :: jsstring where
  "IMG_BASE = ascii ''https://image.tmdb.org/t/p/w342''"

definition placeholder :: jsstring where
  "placeholder = ascii ''https://via.placeholder.com/342x513?text=No+Poster''"

text \<open>
  What a card shows of a record: the \<open>src\<close> and \<open>alt\<close> of the image, the source the
  \<open>onError\<close> handler of the image installs, the title and the release date. (The rating
  is a formatted floating-point number and is left out.)
\<close>

record card =
  src :: jsstring
  alt :: jsstring
  onError_src :: jsstring
  title_text :: jsstring
  date_text :: jsstring

definition render_card :: "variant \<Rightarrow> movie \<Rightarrow> card" where
  "render_card v m =
     \<lparr> src = (if truthy (poster_path m) then IMG_BASE @ the (poster_path m)
              else (case v of MovieJs \<Rightarrow> [] | Part000 \<Rightarrow> placeholder)),
       alt = or_else (title m) (ascii ''Movie poster''),
       onError_src = placeholder,
       title_text = or_else (title m) (ascii ''Untitled''),
       date_text = or_else (release_date m) (ascii ''Unknown'') \<rparr>"

section \<open>Request construction\<close>

text \<open>
  \<open>encodeURIComponent\<close>: the unreserved code units (ASCII letters, digits and
  \<open>- _ . ! ~ * ' ( )\<close>) stay, every other code point is written as the \<open>%XX\<close> of its UTF-8
  octets, and an unpaired surrogate throws a \<open>URIError\<close> (\<open>None\<close>).
\<close>

definition unreserved :: "16 word \<Rightarrow> bool" where
  "unreserved c \<longleftrightarrow>
     (0x41 \<le> c \<and> c \<le> 0x5A) \<or> (0x61 \<le> c \<and> c \<le> 0x7A) \<or> (0x30 \<le> c \<and> c \<le> 0x39) \<or>
     c = 0x2D \<or> c = 0x5F \<or> c = 0x2E \<or> c = 0x21 \<or> c = 0x7E \<or> c = 0x2A \<or>
     c = 0x27 \<or> c = 0x28 \<or> c = 0x29"

definition is_lead :: "16 word \<Rightarrow> bool" where
  "is_lead c \<longleftrightarrow> 0xD800 \<le> c \<and> c \<le> 0xDBFF"

definition is_trail :: "16 word \<Rightarrow> bool" where
  "is_trail c \<longleftrightarrow> 0xDC00 \<le> c \<and> c \<le> 0xDFFF"

definition utf8 :: "nat \<Rightarrow> nat list" where
  "utf8 cp =
     (if cp < 0x80 then [cp]
      else if cp < 0x800 then [0xC0 + cp div 64, 0x80 + cp mod 64]
      else if cp < 0x10000 then
        [0xE0 + cp div 4096, 0x80 + (cp div 64) mod 64, 0x80 + cp mod 64]
      else
        [0xF0 + cp div 262144, 0x80 + (cp div 4096) mod 64, 0x80 + (cp div 64) mod 64,
         0x80 + cp mod 64])"

definition hex_digit :: "nat \<Rightarrow> 16 word" where
  "hex_digit n = (if n < 10 then 0x30 + of_nat n else 0x41 + of_nat (n - 10))"

definition percent :: "nat \<Rightarrow> jsstring" where
  "percent b = [0x25, hex_digit (b div 16), hex_digit (b mod 16)]"

definition escape :: "nat \<Rightarrow> jsstring" where
  "escape cp = concat (map percent (utf8 cp))"

fun encodeURIComponent :: "jsstring \<Rightarrow> jsstring option" where
  "encodeURIComponent [] = Some []"
| "encodeURIComponent (c # cs) =
     (if unreserved c then map_option (\<lambda>r. c # r) (encodeURIComponent cs)
      else if is_trail c then None
      else if is_lead c then
        (case cs of
           [] \<Rightarrow> None
         | d # ds \<Rightarrow>
             if is_trail d
             then map_option
                    (\<lambda>r. escape ((unat c - 0xD800) * 0x400 + (unat d - 0xDC00) + 0x10000) @ r)
                    (encodeURIComponent ds)
             else None)
      else map_option (\<lambda>r. escape (unat c) @ r) (encodeURIComponent cs))"

text \<open>A number in a template literal: the decimal digits of an integer.\<close>

fun digits :: "nat \<Rightarrow> jsstring" where
  "digits n = (if n < 10 then [0x30 + of_nat n] else digits (n div 10) @ [0x30 + of_nat (n mod 10)])"

declare digits.simps [simp del]

definition number_to_string :: "int \<Rightarrow> jsstring" where
  "number_to_string i = (if i < 0 then 0x2D # digits (nat (- i)) else digits (nat i))"

text \<open>
  The URL \<open>load\<close> builds from the key, \<open>query\<close>, \<open>page\<close> and (second file) \<open>sort\<close>;
  \<open>None\<close> when \<open>encodeURIComponent\<close> throws.
\<close>

definition search_base :: jsstring where
  "search_base = ascii ''https://api.themoviedb.org/3/search/movie?api_key=''"

definition discover_base :: jsstring where
  "discover_base = ascii ''https://api.themoviedb.org/3/discover/movie?api_key=''"

definition request_url :: "variant \<Rightarrow> jsstring \<Rightarrow> jsstring \<Rightarrow> int \<Rightarrow> jsstring \<Rightarrow> jsstring option" where
  "request_url v key query page sort' =
     (if trim query \<noteq> [] then
        map_option
          (\<lambda>e. search_base @ key @ ascii ''&query='' @ e @ ascii ''&page='' @
                number_to_string page @ ascii ''&include_adult=false'')
          (encodeURIComponent query)
      else
        Some (discover_base @ key @ ascii ''&page='' @ number_to_string page @
              ascii ''&include_adult=false'' @
              (case v of
                 MovieJs \<Rightarrow> []
               | Part000 \<Rightarrow> if sort' \<noteq> [] then ascii ''&sort_by='' @ sort' else [])))"

text \<open>
  Which endpoint a URL targets, the code units an escaped component may contain, and the
  strings without an unpaired surrogate (\<open>String.prototype.isWellFormed\<close>).
\<close>

definition search_endpoint :: jsstring where
  "search_endpoint = ascii ''https://api.themoviedb.org/3/search/movie?''"

definition discover_endpoint :: jsstring where
  "discover_endpoint = ascii ''https://api.themoviedb.org/3/discover/movie?''"

definition targets_search :: "jsstring \<Rightarrow> bool" where
  "targets_search u \<longleftrightarrow> prefix search_endpoint u"

definition targets_discover :: "jsstring \<Rightarrow> bool" where
  "targets_discover u \<longleftrightarrow> prefix discover_endpoint u"

definition url_safe :: "16 word \<Rightarrow> bool" where
  "url_safe c \<longleftrightarrow> unreserved c \<or> c = 0x25"

fun well_formed :: "jsstring \<Rightarrow> bool" where
  "well_formed [] = True"
| "well_formed (c # cs) =
     (if is_trail c then False
      else if is_lead c then (case cs of [] \<Rightarrow> False | d # ds \<Rightarrow> is_trail d \<and> well_formed ds)
      else well_formed cs)"

section \<open>Query controller\<close>

text \<open>
  The environment of the component: the key read once at load (\<open>None\<close> when the variable
  is not set) and the messages the host gives its own \<open>URIError\<close> and \<open>TypeError\<close>.
\<close>

record config =
  API_KEY :: "jsstring option"
  uri_error_message :: jsstring
  type_error_message :: jsstring

text \<open>
  A fetch that has been issued and has not resolved, with the \<open>cancelled\<close> variable of the
  effect run that issued it.
\<close>

record request =
  rid :: nat
  url :: jsstring
  cancelled :: bool

text \<open>
  The state of the component. \<open>totalPages\<close> exists in the second file only. The last four
  fields are React's and the host's bookkeeping: the dependency values of the last effect
  run, the request whose \<open>cancelled\<close> the registered cleanup sets, the unresolved fetches
  and the next request number.
\<close>

record state =
  movies :: "movie list"
  page :: int
  totalPages :: int
  searchInput :: jsstring
  query :: jsstring
  sort' :: jsstring
  loading :: bool
  error :: jsstring
  deps :: "int \<times> jsstring \<times> jsstring"
  cleanup :: "nat option"
  pending :: "request list"
  next_rid :: nat

text \<open>
  How a fetch resolves: \<open>fetch\<close> or \<open>res.json()\<close> rejects with an error (its message, if it
  has one); the response is not \<open>ok\<close> (its status); or the response is \<open>ok\<close> and its body
  parses. Of a parsed body the model keeps whether it is \<open>null\<close>, its \<open>results\<close> when that
  is an array, and its \<open>total_pages\<close> when present.
\<close>

datatype results_field = ResultsArray "movie list" | ResultsOther

datatype body = BodyNull | Body results_field "int option"

datatype outcome =
    Rejected "jsstring option"
  | HttpError nat
  | Json body

definition missing_key_message :: jsstring where
  "missing_key_message =
     ascii ''Missing REACT_APP_TMDB_API_KEY. Add it to a .env file and restart npm start.''"

definition fallback_message :: jsstring where
  "fallback_message = ascii ''Something went wrong.''"

definition deps_of :: "variant \<Rightarrow> state \<Rightarrow> int \<times> jsstring \<times> jsstring" where
  "deps_of v st = (page st, query st, case v of MovieJs \<Rightarrow> [] | Part000 \<Rightarrow> sort' st)"

text \<open>The cleanup of the previous effect run: \<open>cancelled = true\<close>.\<close>

definition run_cleanup :: "state \<Rightarrow> state" where
  "run_cleanup st =
     (case cleanup st of
        None \<Rightarrow> st
      | Some r \<Rightarrow>
          st\<lparr>pending := map (\<lambda>q. if rid q = r then q\<lparr>cancelled := True\<rparr> else q) (pending st)\<rparr>)"

text \<open>
  The effect body, up to the first \<open>await\<close>. A \<open>URIError\<close> of \<open>encodeURIComponent\<close> is
  caught at once, while \<open>cancelled\<close> is still false.
\<close>

definition effect :: "config \<Rightarrow> variant \<Rightarrow> state \<Rightarrow> state" where
  "effect cfg v st =
     (if \<not> truthy (API_KEY cfg) then st\<lparr>error := missing_key_message, cleanup := None\<rparr>
      else
        let st1 = st\<lparr>loading := True, error := [], cleanup := Some (next_rid st),
                     next_rid := next_rid st + 1\<rparr>
        in case request_url v (the (API_KEY cfg)) (query st) (page st) (sort' st) of
             None \<Rightarrow>
               st1\<lparr>error := or_else (Some (uri_error_message cfg)) fallback_message,
                    loading := False\<rparr>
           | Some u \<Rightarrow>
               st1\<lparr>pending := pending st @ [\<lparr>rid = next_rid st, url = u, cancelled = False\<rparr>]\<rparr>)"

text \<open>After a render: the effect runs again when a dependency has changed.\<close>

definition commit :: "config \<Rightarrow> variant \<Rightarrow> state \<Rightarrow> state" where
  "commit cfg v st =
     (if deps_of v st = deps st then st
      else effect cfg v ((run_cleanup st)\<lparr>deps := deps_of v st\<rparr>))"

definition init :: "variant \<Rightarrow> state" where
  "init v =
     \<lparr> movies = [], page = 1, totalPages = 0, searchInput = [], query = [],
       sort' = (case v of MovieJs \<Rightarrow> ascii ''release_desc'' | Part000 \<Rightarrow> []),
       loading = False, error = [], deps = (1, [], []), cleanup = None, pending = [],
       next_rid = 0 \<rparr>"

definition mount :: "config \<Rightarrow> variant \<Rightarrow> state" where
  "mount cfg v = effect cfg v ((init v)\<lparr>deps := deps_of v (init v)\<rparr>)"

text \<open>The continuation of \<open>load\<close> after its \<open>await\<close>s, with \<open>cancelled\<close> false.\<close>

definition settle :: "config \<Rightarrow> variant \<Rightarrow> state \<Rightarrow> outcome \<Rightarrow> state" where
  "settle cfg v st oc =
     (case oc of
        Rejected msg \<Rightarrow> st\<lparr>error := or_else msg fallback_message, loading := False\<rparr>
      | HttpError status \<Rightarrow>
          st\<lparr>error := or_else (Some (ascii ''TMDB request failed ('' @
                                       number_to_string (int status) @ ascii '')''))
                          fallback_message,
             loading := False\<rparr>
      | Json BodyNull \<Rightarrow>
          st\<lparr>error := or_else (Some (type_error_message cfg)) fallback_message,
             loading := False\<rparr>
      | Json (Body res tp) \<Rightarrow>
          st\<lparr>movies := (case res of ResultsArray ms \<Rightarrow> ms | ResultsOther \<Rightarrow> []),
             totalPages := (case v of
                              MovieJs \<Rightarrow> totalPages st
                            | Part000 \<Rightarrow> (case tp of None \<Rightarrow> 0 | Some n \<Rightarrow> n)),
             loading := False\<rparr>)"

text \<open>A fetch resolves: with \<open>cancelled\<close> true nothing is set.\<close>

definition resolve :: "config \<Rightarrow> variant \<Rightarrow> state \<Rightarrow> nat \<Rightarrow> outcome \<Rightarrow> state" where
  "resolve cfg v st r oc =
     (case find (\<lambda>q. rid q = r) (pending st) of
        None \<Rightarrow> st
      | Some q \<Rightarrow>
          let st' = st\<lparr>pending := filter (\<lambda>q. rid q \<noteq> r) (pending st)\<rparr>
          in if cancelled q then st' else settle cfg v st' oc)"

text \<open>The pager.\<close>

definition prev_disabled :: "state \<Rightarrow> bool" where
  "prev_disabled st \<longleftrightarrow> page st = 1 \<or> loading st"

definition next_disabled :: "variant \<Rightarrow> state \<Rightarrow> bool" where
  "next_disabled v st \<longleftrightarrow>
     (case v of
        MovieJs \<Rightarrow> loading st
      | Part000 \<Rightarrow> loading st \<or> (totalPages st > 0 \<and> page st \<ge> totalPages st))"

definition pager_rendered :: "variant \<Rightarrow> state \<Rightarrow> bool" where
  "pager_rendered v st \<longleftrightarrow>
     (case v of MovieJs \<Rightarrow> True | Part000 \<Rightarrow> \<not> loading st \<and> error st = [])"

text \<open>
  The events: typing in the search box, submitting the form and pressing Clear (first
  file), a key press in the search box (second file), choosing a sort key, clicking a
  pager button, and the resolution of a fetch. A click on a button that is disabled or
  not rendered does nothing.
\<close>

datatype event =
    ChangeInput jsstring
  | Submit
  | Clear
  | KeyPress jsstring
  | SelectSort jsstring
  | ClickPrevious
  | ClickNext
  | Resolve nat outcome

text \<open>The event handlers, as the state they set.\<close>

definition handleSubmit :: "state \<Rightarrow> state" where
  "handleSubmit st = st\<lparr>page := 1, query := trim (searchInput st)\<rparr>"

definition handleClear :: "state \<Rightarrow> state" where
  "handleClear st = st\<lparr>searchInput := [], query := [], page := 1\<rparr>"

definition handleSearchInputChange :: "state \<Rightarrow> jsstring \<Rightarrow> state" where
  "handleSearchInputChange st val =
     (let st1 = st\<lparr>searchInput := val\<rparr>
      in if trim val = [] then st1\<lparr>query := [], page := 1\<rparr> else st1)"

definition handleKeyPress :: "state \<Rightarrow> jsstring \<Rightarrow> state" where
  "handleKeyPress st key =
     (if key = ascii ''Enter'' then st\<lparr>page := 1, query := trim (searchInput st)\<rparr> else st)"

definition handle :: "variant \<Rightarrow> state \<Rightarrow> event \<Rightarrow> state" where
  "handle v st ev =
     (case ev of
        ChangeInput val \<Rightarrow>
          (case v of MovieJs \<Rightarrow> st\<lparr>searchInput := val\<rparr>
                   | Part000 \<Rightarrow> handleSearchInputChange st val)
      | Submit \<Rightarrow> (case v of MovieJs \<Rightarrow> handleSubmit st | Part000 \<Rightarrow> st)
      | Clear \<Rightarrow> (case v of MovieJs \<Rightarrow> handleClear st | Part000 \<Rightarrow> st)
      | KeyPress key \<Rightarrow> (case v of MovieJs \<Rightarrow> st | Part000 \<Rightarrow> handleKeyPress st key)
      | SelectSort s \<Rightarrow> st\<lparr>sort' := s\<rparr>
      | ClickPrevious \<Rightarrow>
          if pager_rendered v st \<and> \<not> prev_disabled st
          then st\<lparr>page := max 1 (page st - 1)\<rparr> else st
      | ClickNext \<Rightarrow>
          if pager_rendered v st \<and> \<not> next_disabled v st
          then st\<lparr>page := page st + 1\<rparr> else st
      | Resolve r oc \<Rightarrow> st)"

text \<open>The events whose handler calls \<open>setQuery\<close>.\<close>

definition sets_query :: "variant \<Rightarrow> event \<Rightarrow> bool" where
  "sets_query v ev \<longleftrightarrow>
     (case v of
        MovieJs \<Rightarrow> ev = Submit \<or> ev = Clear
      | Part000 \<Rightarrow>
          (case ev of
             KeyPress key \<Rightarrow> key = ascii ''Enter''
           | ChangeInput val \<Rightarrow> trim val = []
           | _ \<Rightarrow> False))"

text \<open>One event: the handler or the resolution, then the render and its effects.\<close>

definition step :: "config \<Rightarrow> variant \<Rightarrow> state \<Rightarrow> event \<Rightarrow> state" where
  "step cfg v st ev =
     (case ev of
        Resolve r oc \<Rightarrow> commit cfg v (resolve cfg v st r oc)
      | _ \<Rightarrow> commit cfg v (handle v st ev))"

definition run :: "config \<Rightarrow> variant \<Rightarrow> event list \<Rightarrow> state" where
  "run cfg v evs = foldl (step cfg v) (mount cfg v) evs"

text \<open>What the grid shows.\<close>

datatype grid = Hidden | NoMovies | Cards "card list"

definition render_grid :: "date_parser \<Rightarrow> variant \<Rightarrow> state \<Rightarrow> grid" where
  "render_grid P v st =
     (let sorted_movies = sortedMovies P v (query st) (sort' st) (movies st);
          idle = (\<not> loading st \<and> error st = [])
      in case v of
           MovieJs \<Rightarrow>
             if idle \<and> sorted_movies = [] then NoMovies
             else Cards (map (render_card v) sorted_movies)
         | Part000 \<Rightarrow>
             if idle then
               (if sorted_movies = [] then NoMovies
                else Cards (map (render_card v) sorted_movies))
             else Hidden)"

text \<open>
  What holds of the bookkeeping in every state the component reaches: request numbers are
  distinct and below the next one, exactly the request issued last is not cancelled, and
  the loading flag is set exactly while that request is unresolved.
\<close>

definition controller_inv :: "config \<Rightarrow> variant \<Rightarrow> state \<Rightarrow> bool" where
  "controller_inv cfg v st \<longleftrightarrow>
     1 \<le> page st \<and>
     (v = MovieJs \<longrightarrow> totalPages st = 0) \<and>
     (\<not> truthy (API_KEY cfg) \<longrightarrow> pending st = []) \<and>
     distinct (map rid (pending st)) \<and>
     (\<forall>q \<in> set (pending st). rid q < next_rid st) \<and>
     (\<forall>q \<in> set (pending st). cancelled q \<longleftrightarrow> rid q + 1 \<noteq> next_rid st) \<and>
     (loading st \<longleftrightarrow> (\<exists>q \<in> set (pending st). rid q + 1 = next_rid st)) \<and>
     (loading st \<longrightarrow> error st = [] \<and> cleanup st = Some (next_rid st - 1)) \<and>
     (\<forall>c \<in> set_option (cleanup st). c + 1 = next_rid st) \<and>
     deps st = deps_of v st"

text \<open>
  A load is in flight when a fetch is unresolved whose \<open>cancelled\<close> is false; what a
  resolution may set is the result list, the error message, the loading flag and the
  page count.
\<close>

definition in_flight :: "state \<Rightarrow> bool" where
  "in_flight st \<longleftrightarrow> list_ex (\<lambda>q. \<not> cancelled q) (pending st)"

definition shown :: "state \<Rightarrow> movie list \<times> jsstring \<times> bool \<times> int" where
  "shown st = (movies st, error st, loading st, totalPages st)"

section \<open>A date parser and example records\<close>

text \<open>
  The date-only form \<open>YYYY-MM-DD\<close> of the ECMAScript date-time string format, which every
  host reads as midnight UTC of that day, in milliseconds since 1970-01-01. Other strings
  are hosts' business and are \<open>None\<close> here; the general theorems hold for every parser.
\<close>

definition digit_of :: "16 word \<Rightarrow> nat option" where
  "digit_of c = (if 0x30 \<le> c \<and> c \<le> 0x39 then Some (unat c - 48) else None)"

fun decimal :: "jsstring \<Rightarrow> nat \<Rightarrow> nat option" where
  "decimal [] acc = Some acc"
| "decimal (c # cs) acc =
     (case digit_of c of None \<Rightarrow> None | Some d \<Rightarrow> decimal cs (10 * acc + d))"

definition days_in_month :: "int \<Rightarrow> int \<Rightarrow> int" where
  "days_in_month y m =
     (if m = 2 then (if y mod 4 = 0 \<and> (y mod 100 \<noteq> 0 \<or> y mod 400 = 0) then 29 else 28)
      else if m = 4 \<or> m = 6 \<or> m = 9 \<or> m = 11 then 30 else 31)"

definition days_from_civil :: "int \<Rightarrow> int \<Rightarrow> int \<Rightarrow> int" where
  "days_from_civil y m d =
     (let y' = (if m \<le> 2 then y - 1 else y);
          era = y' div 400;
          yoe = y' - era * 400;
          doy = (153 * (if m > 2 then m - 3 else m + 9) + 2) div 5 + d - 1;
          doe = yoe * 365 + yoe div 4 - yoe div 100 + doy
      in era * 146097 + doe - 719468)"

definition iso_date_parse :: date_parser where
  "iso_date_parse s =
     (if length s = 10 \<and> s ! 4 = 0x2D \<and> s ! 7 = 0x2D then
        (case (decimal (take 4 s) 0, decimal (take 2 (drop 5 s)) 0, decimal (drop 8 s) 0) of
           (Some y, Some m, Some d) \<Rightarrow>
             if 1 \<le> m \<and> m \<le> 12 \<and> 1 \<le> d \<and> int d \<le> days_in_month (int y) (int m)
             then Some (of_int (days_from_civil (int y) (int m) (int d) * 86400000))
             else None
         | _ \<Rightarrow> None)
      else None)"

definition cfg_K :: config where
  "cfg_K = \<lparr> API_KEY = Some (ascii ''K''), uri_error_message = ascii ''URI malformed'',
             type_error_message = ascii ''data is null'' \<rparr>"

text \<open>
  The first file after the user has submitted the query "star" while the first request
  was unresolved, and the two requests then pending.
\<close>

definition st_XY :: state where
  "st_XY = run cfg_K MovieJs [ChangeInput (ascii ''star''), Submit]"

definition req_X :: request where
  "req_X = \<lparr>rid = 0,
      url = ascii ''https://api.themoviedb.org/3/discover/movie?api_key=K&page=1&include_adult=false'',
      cancelled = True\<rparr>"

definition req_Y :: request where
  "req_Y = \<lparr>rid = 1,
      url = ascii ''https://api.themoviedb.org/3/search/movie?api_key=K&query=star&page=1&include_adult=false'',
      cancelled = False\<rparr>"

definition movie_A :: movie where
  "movie_A = \<lparr> movie_id = 1, title = Some (ascii ''A''),
               release_date = Some (ascii ''2020-01-01''), vote_average = Some 5,
               poster_path = Some (ascii ''/a.jpg'') \<rparr>"

definition movie_B :: movie where
  "movie_B = \<lparr> movie_id = 2, title = Some (ascii ''B''),
               release_date = Some (ascii ''1999-01-01''), vote_average = Some 8,
               poster_path = None \<rparr>"

text \<open>A record without title and date, and one from before 1970.\<close>

definition movie_C :: movie where
  "movie_C = \<lparr> movie_id = 3, title = None, release_date = None, vote_average = Some 5,
               poster_path = None \<rparr>"

definition movie_D :: movie where
  "movie_D = \<lparr> movie_id = 4, title = Some (ascii ''D''),
               release_date = Some (ascii ''1960-01-01''), vote_average = None,
               poster_path = Some [] \<rparr>"


definition st_M :: state where
  "st_M = run cfg_K MovieJs
     [Resolve 0 (Json (Body (ResultsArray [movie_A, movie_B, movie_C]) None))]"

section \<open>Properties of the sort\<close>

lemma mset_insert_cmp: "mset (insert_cmp cmp x ys) = add_mset x (mset ys)"
  by (induction ys) auto

lemma mset_js_sort: "mset (js_sort cmp xs) = mset xs"
  by (induction xs) (auto simp: mset_insert_cmp)

lemma set_insert_cmp: "set (insert_cmp cmp x ys) = insert x (set ys)"
  by (induction ys) auto

lemma set_js_sort: "set (js_sort cmp xs) = set xs"
  by (induction xs) (auto simp: set_insert_cmp)

lemma length_js_sort: "length (js_sort cmp xs) = length xs"
  using mset_js_sort [of cmp xs] by (metis size_mset)

text \<open>Ascending and descending order by a key \<open>f\<close>.\<close>

lemma sorted_insert_asc:
  "sorted_wrt (\<lambda>a b. f a \<le> f b) ys \<Longrightarrow>
   sorted_wrt (\<lambda>a b. f a \<le> (f b :: rat)) (insert_cmp (\<lambda>a b. f a - f b) x ys)"
  by (induction ys) (auto simp: set_insert_cmp)

lemma sorted_js_sort_asc:
  "sorted_wrt (\<lambda>a b. f a \<le> (f b :: rat)) (js_sort (\<lambda>a b. f a - f b) xs)"
  by (induction xs) (auto intro: sorted_insert_asc)

lemma sorted_insert_desc:
  "sorted_wrt (\<lambda>a b. f b \<le> f a) ys \<Longrightarrow>
   sorted_wrt (\<lambda>a b. f b \<le> (f a :: rat)) (insert_cmp (\<lambda>a b. f b - f a) x ys)"
  by (induction ys) (auto simp: set_insert_cmp)

lemma sorted_js_sort_desc:
  "sorted_wrt (\<lambda>a b. f b \<le> (f a :: rat)) (js_sort (\<lambda>a b. f b - f a) xs)"
  by (induction xs) (auto intro: sorted_insert_desc)

text \<open>Stability: the records of one key value keep their order.\<close>

lemma filter_insert_asc:
  "sorted_wrt (\<lambda>a b. f a \<le> f b) ys \<Longrightarrow>
   filter (\<lambda>y. f y = (k :: rat)) (insert_cmp (\<lambda>a b. f a - f b) x ys) =
   filter (\<lambda>y. f y = k) (x # ys)"
proof (induction ys)
  case Nil
  then show ?case by simp
next
  case (Cons y ys)
  show ?case
  proof (cases "f x \<le> f y")
    case True
    then show ?thesis by simp
  next
    case False
    with Cons show ?thesis by auto
  qed
qed

lemma filter_js_sort_asc:
  "filter (\<lambda>y. f y = (k :: rat)) (js_sort (\<lambda>a b. f a - f b) xs) = filter (\<lambda>y. f y = k) xs"
proof (induction xs)
  case Nil
  then show ?case by simp
next
  case (Cons x xs)
  have "filter (\<lambda>y. f y = k) (js_sort (\<lambda>a b. f a - f b) (x # xs)) =
        filter (\<lambda>y. f y = k) (x # js_sort (\<lambda>a b. f a - f b) xs)"
    by (simp add: filter_insert_asc sorted_js_sort_asc)
  with Cons show ?case by simp
qed

lemma filter_insert_desc:
  "sorted_wrt (\<lambda>a b. f b \<le> f a) ys \<Longrightarrow>
   filter (\<lambda>y. f y = (k :: rat)) (insert_cmp (\<lambda>a b. f b - f a) x ys) =
   filter (\<lambda>y. f y = k) (x # ys)"
proof (induction ys)
  case Nil
  then show ?case by simp
next
  case (Cons y ys)
  show ?case
  proof (cases "f y \<le> f x")
    case True
    then show ?thesis by simp
  next
    case False
    with Cons show ?thesis by auto
  qed
qed

lemma filter_js_sort_desc:
  "filter (\<lambda>y. f y = (k :: rat)) (js_sort (\<lambda>a b. f b - f a) xs) = filter (\<lambda>y. f y = k) xs"
proof (induction xs)
  case Nil
  then show ?case by simp
next
  case (Cons x xs)
  have "filter (\<lambda>y. f y = k) (js_sort (\<lambda>a b. f b - f a) (x # xs)) =
        filter (\<lambda>y. f y = k) (x # js_sort (\<lambda>a b. f b - f a) xs)"
    by (simp add: filter_insert_desc sorted_js_sort_desc)
  with Cons show ?case by simp
qed

lemmas example_defs = movie_A_def movie_B_def movie_C_def movie_D_def

text \<open>
  C4. Under every sort key the records of one comparison-key value appear in the sorted
  output in the order they have in the input, and the output holds the same records as
  the input: the sort is stable.
\<close>

theorem sortedMovies_stable:
  "filter (\<lambda>m. comparison_key P v s m = k) (sortedMovies P v q s ms) =
     filter (\<lambda>m. comparison_key P v s m = k) ms \<and>
   mset (sortedMovies P v q s ms) = mset ms"
  by (cases v)
     (simp_all add: sortedMovies_def sort_switch_def comparison_key_def
        filter_js_sort_asc filter_js_sort_desc mset_js_sort)

theorem sortedMovies_stable_witness:
  "filter (\<lambda>m. comparison_key iso_date_parse MovieJs (ascii ''rating_desc'') m = 5)
     (sortedMovies iso_date_parse MovieJs [] (ascii ''rating_desc'') [movie_A, movie_B, movie_C])
   = [movie_A, movie_C]"
  using sortedMovies_stable [of iso_date_parse MovieJs "ascii ''rating_desc''" 5 "[]"
      "[movie_A, movie_B, movie_C]"]
  by (simp add: comparison_key_def key_release_asc_def key_release_desc_def
      key_rating_asc_def key_rating_desc_def ratingVal_def example_defs ascii_def)

section \<open>Missing dates\<close>

lemma dateVal_missing:
  "\<not> truthy (release_date m) \<or> P (the (release_date m)) = None \<Longrightarrow> dateVal P m = 0"
  by (auto simp: dateVal_def)

lemma dateVal_valid:
  "truthy (release_date m) \<Longrightarrow> P (the (release_date m)) = Some t \<Longrightarrow> dateVal P m = t"
  by (simp add: dateVal_def)

lemma sort_applies:
  "v = MovieJs \<or> q \<noteq> [] \<Longrightarrow> s = key_release_asc v \<or> s = key_release_desc v \<Longrightarrow>
   sortedMovies P v q s ms = sort_switch P v s ms"
  by (cases v) (auto simp: sortedMovies_def key_release_asc_def key_release_desc_def ascii_def)

lemma sorted_release_asc:
  "sorted_wrt (\<lambda>a b. dateVal P a \<le> dateVal P b) (sort_switch P v (key_release_asc v) ms)"
  by (simp add: sort_switch_def sorted_js_sort_asc)

lemma key_release_distinct: "key_release_desc v \<noteq> key_release_asc v"
  by (cases v) (simp_all add: key_release_asc_def key_release_desc_def ascii_def)

lemma sorted_release_desc:
  "sorted_wrt (\<lambda>a b. dateVal P b \<le> dateVal P a) (sort_switch P v (key_release_desc v) ms)"
  by (simp add: sort_switch_def sorted_js_sort_desc key_release_distinct)

text \<open>
  C5, as stated, fails: a record without a date has the key 0, the first instant of 1970,
  and a record from 1960 sorts before it under the ascending key; and the second file
  sorts nothing while no query is submitted.
\<close>

theorem missing_date_first_counterexample:
  "release_date movie_C = None \<and>
   iso_date_parse (the (release_date movie_D)) = Some (- 315619200000) \<and>
   sortedMovies iso_date_parse MovieJs [] (ascii ''release_asc'') [movie_C, movie_D] =
     [movie_D, movie_C] \<and>
   sortedMovies iso_date_parse Part000 [] (ascii ''release_date.asc'') [movie_A, movie_C] =
     [movie_A, movie_C]"
  by (simp add: sortedMovies_def sort_switch_def key_release_asc_def dateVal_def example_defs
      iso_date_parse_def ascii_def digit_of_def days_from_civil_def days_in_month_def)

text \<open>
  C5, amended. Where the sort applies (first file; second file with a submitted query), a
  record whose release date is absent, empty or unparsable has the key 0, the first
  instant of 1970: under the ascending date key it stands before every record with a
  valid date after that instant, and behind every such record under the descending key.
\<close>

theorem missing_date_order:
  assumes applies: "v = MovieJs \<or> q \<noteq> []"
    and out: "out = sortedMovies P v q s ms"
    and i: "i < length out" and j: "j < length out"
    and missing: "\<not> truthy (release_date (out ! i)) \<or> P (the (release_date (out ! i))) = None"
    and valid: "truthy (release_date (out ! j))" "P (the (release_date (out ! j))) = Some t"
    and after_epoch: "0 < t"
  shows "(s = key_release_asc v \<longrightarrow> i < j) \<and> (s = key_release_desc v \<longrightarrow> j < i)"
proof -
  have ki: "dateVal P (out ! i) = 0"
    using missing by (rule dateVal_missing)
  have kj: "dateVal P (out ! j) = t"
    using valid by (rule dateVal_valid)
  have asc: "dateVal P (out ! a) \<le> dateVal P (out ! b)"
    if "s = key_release_asc v" "a < b" "b < length out" for a b
    using sorted_release_asc [of P v ms] sort_applies [OF applies, of s P ms] that out
    by (simp add: sorted_wrt_iff_nth_less)
  have desc: "dateVal P (out ! b) \<le> dateVal P (out ! a)"
    if "s = key_release_desc v" "a < b" "b < length out" for a b
    using sorted_release_desc [of P v ms] sort_applies [OF applies, of s P ms] that out
    by (simp add: sorted_wrt_iff_nth_less)
  have ne: "i \<noteq> j"
    using ki kj after_epoch by auto
  show ?thesis
  proof (intro conjI impI)
    assume h: "s = key_release_asc v"
    show "i < j"
    proof (rule ccontr)
      assume "\<not> i < j"
      with ne have "j < i" by simp
      with asc [of j i] h i ki kj after_epoch show False by simp
    qed
  next
    assume h: "s = key_release_desc v"
    show "j < i"
    proof (rule ccontr)
      assume "\<not> j < i"
      with ne have "i < j" by simp
      with desc [of i j] h j ki kj after_epoch show False by simp
    qed
  qed
qed

theorem missing_date_order_witness:
  "sortedMovies iso_date_parse Part000 (ascii ''x'') (ascii ''release_date.asc'')
     [movie_A, movie_C] = [movie_C, movie_A] \<and>
   \<not> truthy (release_date movie_C) \<and>
   iso_date_parse (the (release_date movie_A)) = Some 1577836800000 \<and>
   (0 :: nat) < 1"
proof -
  let ?out = "[movie_C, movie_A]"
  have out: "?out = sortedMovies iso_date_parse Part000 (ascii ''x'')
      (key_release_asc Part000) [movie_A, movie_C]"
    by (simp add: sortedMovies_def sort_switch_def key_release_asc_def dateVal_def example_defs
        iso_date_parse_def ascii_def digit_of_def days_from_civil_def days_in_month_def)
  have q: "Part000 = MovieJs \<or> ascii ''x'' \<noteq> []"
    by (simp add: ascii_def)
  have missing: "\<not> truthy (release_date (?out ! 0)) \<or>
      iso_date_parse (the (release_date (?out ! 0))) = None"
    by (simp add: example_defs)
  have valid: "truthy (release_date (?out ! 1))"
    "iso_date_parse (the (release_date (?out ! 1))) = Some 1577836800000"
    by (simp_all add: example_defs iso_date_parse_def ascii_def digit_of_def
        days_from_civil_def days_in_month_def)
  have "(0 :: nat) < 1"
    using missing_date_order [OF q out _ _ missing valid] by simp
  moreover have "\<not> truthy (release_date movie_C)"
    by (simp add: example_defs)
  ultimately show ?thesis
    using out [symmetric] valid by (simp add: key_release_asc_def)
qed

section \<open>The request URL\<close>

lemma unreserved_not_surrogate: "unreserved c \<Longrightarrow> \<not> is_trail c \<and> \<not> is_lead c"
  by (auto simp: unreserved_def is_trail_def is_lead_def word_le_nat_alt)

lemma encode_None_iff: "encodeURIComponent q = None \<longleftrightarrow> \<not> well_formed q"
  by (induction q rule: encodeURIComponent.induct)
     (auto simp: unreserved_not_surrogate split: list.splits)

lemma hex_digits_safe: "list_all (\<lambda>n. url_safe (hex_digit n)) [0..<16]"
  by code_simp

lemma hex_digit_safe: "n < 16 \<Longrightarrow> url_safe (hex_digit n)"
  using hex_digits_safe by (simp add: list_all_iff)

lemma percent_safe: "b < 256 \<Longrightarrow> list_all url_safe (percent b)"
proof -
  assume "b < 256"
  then have "b div 16 < 16" "b mod 16 < 16" by simp_all
  moreover have "url_safe 0x25" by (simp add: url_safe_def)
  ultimately show ?thesis
    by (simp add: percent_def hex_digit_safe)
qed

lemma utf8_bytes: "cp < 0x110000 \<Longrightarrow> \<forall>b \<in> set (utf8 cp). b < 256"
  by (auto simp: utf8_def)

lemma escape_safe: "cp < 0x110000 \<Longrightarrow> list_all url_safe (escape cp)"
  using utf8_bytes [of cp] by (auto simp: escape_def list_all_iff dest!: percent_safe)

lemma unat_16_bound: "unat (c :: 16 word) < 0x110000"
  using unsigned_less [of c, where 'a = nat] by simp

lemma surrogate_pair_bound:
  "is_lead c \<Longrightarrow> is_trail d \<Longrightarrow> (unat c - 0xD800) * 0x400 + (unat d - 0xDC00) + 0x10000 < 0x110000"
  unfolding is_lead_def is_trail_def word_le_nat_alt by simp arith

lemma encode_safe: "encodeURIComponent q = Some e \<Longrightarrow> list_all url_safe e"
proof (induction q arbitrary: e rule: encodeURIComponent.induct)
  case 1
  then show ?case by simp
next
  case (2 c cs)
  show ?case
  proof (cases "unreserved c")
    case True
    with 2 show ?thesis by (auto simp: url_safe_def)
  next
    case False
    show ?thesis
    proof (cases "is_lead c")
      case lead: True
      with False 2 show ?thesis
        by (auto simp: escape_safe surrogate_pair_bound split: if_splits list.splits)
    next
      case nolead: False
      with False 2 show ?thesis
        by (auto simp: escape_safe unat_16_bound split: if_splits)
    qed
  qed
qed

lemma targets_search_base:
  "targets_search (search_base @ r)" "\<not> targets_discover (search_base @ r)"
  by (simp_all add: targets_search_def targets_discover_def search_base_def
      search_endpoint_def discover_endpoint_def ascii_def)

lemma targets_discover_base:
  "targets_discover (discover_base @ r)" "\<not> targets_search (discover_base @ r)"
  by (simp_all add: targets_search_def targets_discover_def discover_base_def
      search_endpoint_def discover_endpoint_def ascii_def)

text \<open>
  C3. The URL \<open>load\<close> builds targets the search endpoint exactly when the query is not
  empty after trimming, and the discovery endpoint otherwise, never both; the search URL
  carries the query escaped into URL-safe code units, and both carry the page number.
  No URL is built only when the query holds an unpaired surrogate, which
  \<open>encodeURIComponent\<close> refuses.
\<close>

theorem request_url_endpoint:
  "case request_url v key q p s of
     None \<Rightarrow> trim q \<noteq> [] \<and> \<not> well_formed q
   | Some u \<Rightarrow>
       (targets_search u \<longleftrightarrow> trim q \<noteq> []) \<and>
       (targets_discover u \<longleftrightarrow> trim q = []) \<and>
       (if trim q \<noteq> [] then
          well_formed q \<and> list_all url_safe (the (encodeURIComponent q)) \<and>
          u = search_base @ key @ ascii ''&query='' @ the (encodeURIComponent q) @
              ascii ''&page='' @ number_to_string p @ ascii ''&include_adult=false''
        else
          prefix (discover_base @ key @ ascii ''&page='' @ number_to_string p @
                  ascii ''&include_adult=false'') u)"
proof (cases "trim q = []")
  case True
  then show ?thesis
    by (simp add: request_url_def targets_discover_base)
next
  case False
  show ?thesis
  proof (cases "encodeURIComponent q")
    case None
    with False show ?thesis
      by (simp add: request_url_def encode_None_iff [symmetric])
  next
    case (Some e)
    then have "well_formed q"
      using encode_None_iff [of q] by simp
    with False Some show ?thesis
      by (simp add: request_url_def targets_search_base encode_safe)
  qed
qed

theorem request_url_endpoint_witness:
  "request_url Part000 (ascii ''K'') (ascii ''Star Wars'') 12 (ascii ''release_date.asc'') =
     Some (ascii ''https://api.themoviedb.org/3/search/movie?api_key=K&query=Star%20Wars&page=12&include_adult=false'') \<and>
   targets_search (ascii ''https://api.themoviedb.org/3/search/movie?api_key=K&query=Star%20Wars&page=12&include_adult=false'')"
  using request_url_endpoint [where v = Part000 and key = "ascii ''K''" and q = "ascii ''Star Wars''"
      and p = 12 and s = "ascii ''release_date.asc''"]
  by (simp add: request_url_def trim_def is_js_space_def ascii_def unreserved_def is_lead_def
      is_trail_def escape_def utf8_def percent_def hex_digit_def search_base_def
      number_to_string_def digits.simps)

section \<open>Cards\<close>

text \<open>
  C9, as stated, fails in the first file: the card of a record without a poster path has
  the empty string as its image source, not the placeholder.
\<close>

theorem card_placeholder_counterexample:
  "poster_path movie_B = None \<and> src (render_card MovieJs movie_B) = [] \<and> placeholder \<noteq> []"
  by (simp add: render_card_def example_defs placeholder_def ascii_def)

text \<open>
  C9, amended. For every record shown in the grid, the card shows "Untitled" when the
  title is absent or empty and "Unknown" when the release date is absent or empty. When
  the poster path is absent or empty, the image source is the placeholder in the second
  file and the empty string in the first file, where the placeholder is what the error
  handler of the image installs.
\<close>

theorem render_card_fallbacks:
  assumes "render_grid P v st = Cards cs" and "i < length cs"
  shows "let m = sortedMovies P v (query st) (sort' st) (movies st) ! i; c = cs ! i in
         title_text c = (if truthy (title m) then the (title m) else ascii ''Untitled'') \<and>
         date_text c =
           (if truthy (release_date m) then the (release_date m) else ascii ''Unknown'') \<and>
         onError_src c = placeholder \<and>
         src c = (if truthy (poster_path m) then IMG_BASE @ the (poster_path m)
                  else case v of MovieJs \<Rightarrow> [] | Part000 \<Rightarrow> placeholder)"
proof -
  have "cs = map (render_card v) (sortedMovies P v (query st) (sort' st) (movies st))"
    using assms(1) by (cases v) (auto simp: render_grid_def Let_def split: if_splits)
  with assms(2) show ?thesis
    by (simp add: render_card_def or_else_def Let_def)
qed

theorem render_card_fallbacks_witness:
  "render_grid iso_date_parse MovieJs st_M =
     Cards [render_card MovieJs movie_A, render_card MovieJs movie_B, render_card MovieJs movie_C] \<and>
   title_text (render_card MovieJs movie_C) = ascii ''Untitled'' \<and>
   date_text (render_card MovieJs movie_C) = ascii ''Unknown'' \<and>
   src (render_card MovieJs movie_C) = [] \<and>
   onError_src (render_card MovieJs movie_C) = placeholder"
proof -
  let ?cs = "[render_card MovieJs movie_A, render_card MovieJs movie_B, render_card MovieJs movie_C]"
  have g: "render_grid iso_date_parse MovieJs st_M = Cards ?cs"
    by code_simp
  have s: "sortedMovies iso_date_parse MovieJs (query st_M) (sort' st_M) (movies st_M) =
      [movie_A, movie_B, movie_C]"
    by code_simp
  have i: "2 < length ?cs" by simp
  show ?thesis
    using render_card_fallbacks [OF g i] g
    by (simp add: s Let_def example_defs)
qed

section \<open>The invariant of the controller\<close>

lemma controller_invI:
  assumes "1 \<le> page st"
    and "v = MovieJs \<Longrightarrow> totalPages st = 0"
    and "\<not> truthy (API_KEY cfg) \<Longrightarrow> pending st = []"
    and "distinct (map rid (pending st))"
    and "\<And>q. q \<in> set (pending st) \<Longrightarrow> rid q < next_rid st"
    and "\<And>q. q \<in> set (pending st) \<Longrightarrow> cancelled q \<longleftrightarrow> rid q + 1 \<noteq> next_rid st"
    and "loading st \<longleftrightarrow> (\<exists>q \<in> set (pending st). rid q + 1 = next_rid st)"
    and "loading st \<Longrightarrow> error st = [] \<and> cleanup st = Some (next_rid st - 1)"
    and "\<And>c. cleanup st = Some c \<Longrightarrow> c + 1 = next_rid st"
    and "deps st = deps_of v st"
  shows "controller_inv cfg v st"
  unfolding controller_inv_def
  apply (intro conjI ballI impI)
  using assms apply blast+
  done

lemma controller_invD:
  assumes "controller_inv cfg v st"
  shows "1 \<le> page st"
    and "v = MovieJs \<Longrightarrow> totalPages st = 0"
    and "\<not> truthy (API_KEY cfg) \<Longrightarrow> pending st = []"
    and "distinct (map rid (pending st))"
    and "\<And>q. q \<in> set (pending st) \<Longrightarrow> rid q < next_rid st"
    and "\<And>q. q \<in> set (pending st) \<Longrightarrow> cancelled q \<longleftrightarrow> rid q + 1 \<noteq> next_rid st"
    and "loading st \<longleftrightarrow> (\<exists>q \<in> set (pending st). rid q + 1 = next_rid st)"
    and "loading st \<Longrightarrow> error st = [] \<and> cleanup st = Some (next_rid st - 1)"
    and "\<And>c. cleanup st = Some c \<Longrightarrow> c + 1 = next_rid st"
    and "deps st = deps_of v st"
  using assms unfolding controller_inv_def by blast+

lemma find_rid: "find (\<lambda>q. rid q = r) ps = Some q \<Longrightarrow> q \<in> set ps \<and> rid q = r"
  by (auto simp: find_Some_iff)

lemma settle_frame:
  "pending (settle cfg v st oc) = pending st"
  "loading (settle cfg v st oc) = False"
  "cleanup (settle cfg v st oc) = cleanup st"
  "next_rid (settle cfg v st oc) = next_rid st"
  "page (settle cfg v st oc) = page st"
  "query (settle cfg v st oc) = query st"
  "sort' (settle cfg v st oc) = sort' st"
  "searchInput (settle cfg v st oc) = searchInput st"
  "deps (settle cfg v st oc) = deps st"
  "v = MovieJs \<Longrightarrow> totalPages (settle cfg v st oc) = totalPages st"
  by (simp_all add: settle_def split: outcome.split body.split)

lemma deps_of_cong:
  "page st' = page st \<Longrightarrow> query st' = query st \<Longrightarrow> sort' st' = sort' st \<Longrightarrow>
   deps_of v st' = deps_of v st"
  by (cases v) (simp_all add: deps_of_def)

lemma deps_of_update:
  "deps_of v (st\<lparr>loading := a\<rparr>) = deps_of v st"
  "deps_of v (st\<lparr>error := b\<rparr>) = deps_of v st"
  "deps_of v (st\<lparr>cleanup := c\<rparr>) = deps_of v st"
  "deps_of v (st\<lparr>next_rid := d\<rparr>) = deps_of v st"
  "deps_of v (st\<lparr>pending := e\<rparr>) = deps_of v st"
  "deps_of v (st\<lparr>deps := f\<rparr>) = deps_of v st"
  "deps_of v (st\<lparr>movies := g\<rparr>) = deps_of v st"
  "deps_of v (st\<lparr>totalPages := h\<rparr>) = deps_of v st"
  "deps_of v (st\<lparr>searchInput := i\<rparr>) = deps_of v st"
  by (cases v; simp add: deps_of_def)+

lemma deps_of_settle: "deps_of v (settle cfg v st oc) = deps_of v st"
  by (cases v) (simp_all add: deps_of_def settle_frame)

lemma resolve_inv:
  assumes inv: "controller_inv cfg v st"
  shows "controller_inv cfg v (resolve cfg v st r oc)"
proof (cases "find (\<lambda>q. rid q = r) (pending st)")
  case None
  with inv show ?thesis by (simp add: resolve_def)
next
  case (Some q)
  then have q: "q \<in> set (pending st)" "rid q = r"
    using find_rid by blast+
  note D = controller_invD [OF inv]
  let ?st = "st\<lparr>pending := filter (\<lambda>q. rid q \<noteq> r) (pending st)\<rparr>"
  show ?thesis
  proof (cases "cancelled q")
    case True
    then have r: "r + 1 \<noteq> next_rid st"
      using D(6) [OF q(1)] q(2) by simp
    have "controller_inv cfg v ?st"
    proof (rule controller_invI)
      show "distinct (map rid (pending ?st))"
        using D(4) by (simp add: distinct_map_filter)
      show "loading ?st \<longleftrightarrow> (\<exists>q \<in> set (pending ?st). rid q + 1 = next_rid ?st)"
        using D(7) r by auto
      show "deps ?st = deps_of v ?st"
        using D(10) by (simp add: deps_of_cong [of ?st st])
    qed (use D in simp_all)
    with Some True show ?thesis by (simp add: resolve_def)
  next
    case False
    then have r: "r + 1 = next_rid st"
      using D(6) [OF q(1)] q(2) by simp
    have "controller_inv cfg v (settle cfg v ?st oc)"
    proof (rule controller_invI)
      show "distinct (map rid (pending (settle cfg v ?st oc)))"
        using D(4) by (simp add: settle_frame distinct_map_filter)
      show "loading (settle cfg v ?st oc) \<longleftrightarrow>
          (\<exists>q \<in> set (pending (settle cfg v ?st oc)). rid q + 1 = next_rid (settle cfg v ?st oc))"
        using r by (auto simp: settle_frame)
      show "deps (settle cfg v ?st oc) = deps_of v (settle cfg v ?st oc)"
        using D(10) by (simp add: deps_of_settle settle_frame deps_of_cong [of ?st st])
    qed (use D in \<open>simp_all add: settle_frame\<close>)
    with Some False show ?thesis by (simp add: resolve_def)
  qed
qed


lemma run_cleanup_pending:
  "pending (run_cleanup st) =
     map (\<lambda>q. if Some (rid q) = cleanup st then q\<lparr>cancelled := True\<rparr> else q) (pending st)"
  by (cases "cleanup st") (auto simp: run_cleanup_def)

lemma run_cleanup_frame:
  "loading (run_cleanup st) = loading st"
  "error (run_cleanup st) = error st"
  "cleanup (run_cleanup st) = cleanup st"
  "next_rid (run_cleanup st) = next_rid st"
  "page (run_cleanup st) = page st"
  "query (run_cleanup st) = query st"
  "sort' (run_cleanup st) = sort' st"
  "totalPages (run_cleanup st) = totalPages st"
  "movies (run_cleanup st) = movies st"
  "searchInput (run_cleanup st) = searchInput st"
  by (cases "cleanup st"; simp add: run_cleanup_def)+

lemma effect_nokey:
  "\<not> truthy (API_KEY cfg) \<Longrightarrow>
   effect cfg v st = st\<lparr>error := missing_key_message, cleanup := None\<rparr>"
  by (simp add: effect_def)

lemma effect_throw:
  "truthy (API_KEY cfg) \<Longrightarrow>
   request_url v (the (API_KEY cfg)) (query st) (page st) (sort' st) = None \<Longrightarrow>
   effect cfg v st =
     st\<lparr>loading := False, error := or_else (Some (uri_error_message cfg)) fallback_message,
        cleanup := Some (next_rid st), next_rid := next_rid st + 1\<rparr>"
  by (simp add: effect_def)

lemma effect_launch:
  "truthy (API_KEY cfg) \<Longrightarrow>
   request_url v (the (API_KEY cfg)) (query st) (page st) (sort' st) = Some u \<Longrightarrow>
   effect cfg v st =
     st\<lparr>loading := True, error := [], cleanup := Some (next_rid st),
        next_rid := next_rid st + 1,
        pending := pending st @ [\<lparr>rid = next_rid st, url = u, cancelled = False\<rparr>]\<rparr>"
  by (simp add: effect_def)

text \<open>
  A state \<open>st2\<close> in which the effect has run again on a state \<open>st0\<close> of the invariant: the
  requests of \<open>st0\<close> are cancelled, a new request number is taken, and the new request is
  pending exactly when \<open>st2\<close> is loading.
\<close>

lemma supersede_inv:
  assumes inv: "controller_inv cfg v st0"
    and key: "truthy (API_KEY cfg)"
    and pend: "pending st2 =
        map (\<lambda>q. if Some (rid q) = cleanup st0 then q\<lparr>cancelled := True\<rparr> else q) (pending st0) @
        (if loading st2 then [\<lparr>rid = next_rid st0, url = u, cancelled = False\<rparr>] else [])"
    and err: "loading st2 \<Longrightarrow> error st2 = []"
    and cl: "cleanup st2 = Some (next_rid st0)"
    and nr: "next_rid st2 = Suc (next_rid st0)"
    and pg: "1 \<le> page st2"
    and tp: "totalPages st2 = totalPages st0"
    and dp: "deps st2 = deps_of v st2"
  shows "controller_inv cfg v st2"
proof -
  note D = controller_invD [OF inv]
  define olds where
    "olds = map (\<lambda>q. if Some (rid q) = cleanup st0 then q\<lparr>cancelled := True\<rparr> else q) (pending st0)"
  define new where "new = \<lparr>rid = next_rid st0, url = u, cancelled = False\<rparr>"
  have rid_olds: "map rid olds = map rid (pending st0)"
    unfolding olds_def by (induction "pending st0") auto
  have olds_lt: "rid q < next_rid st0" if "q \<in> set olds" for q
  proof -
    from that have "rid q \<in> set (map rid olds)" by simp
    then have "rid q \<in> rid ` set (pending st0)" by (simp add: rid_olds)
    with D(5) show ?thesis by auto
  qed
  have olds_cancelled: "cancelled q" if "q \<in> set olds" for q
  proof -
    from that obtain q0 where q0: "q0 \<in> set (pending st0)"
      and q: "q = (if Some (rid q0) = cleanup st0 then q0\<lparr>cancelled := True\<rparr> else q0)"
      unfolding olds_def by auto
    show ?thesis
    proof (cases "Some (rid q0) = cleanup st0")
      case True
      with q show ?thesis by simp
    next
      case False
      have "rid q0 + 1 \<noteq> next_rid st0"
      proof
        assume e: "rid q0 + 1 = next_rid st0"
        with q0 D(7) have "loading st0" by blast
        with D(8) e have "cleanup st0 = Some (rid q0)" by auto
        with False show False by simp
      qed
      with D(6) [OF q0] q False show ?thesis by simp
    qed
  qed
  have p: "pending st2 = olds @ (if loading st2 then [new] else [])"
    using pend by (simp add: olds_def new_def)
  have new: "rid new = next_rid st0" "\<not> cancelled new"
    by (simp_all add: new_def)
  show ?thesis
  proof (rule controller_invI)
    show "1 \<le> page st2" by (rule pg)
    show "totalPages st2 = 0" if "v = MovieJs"
      using that D(2) tp by simp
    show "pending st2 = []" if "\<not> truthy (API_KEY cfg)"
      using that key by simp
    show "distinct (map rid (pending st2))"
    proof (cases "loading st2")
      case True
      have "next_rid st0 \<notin> set (map rid (pending st0))"
        using D(5) by fastforce
      with True D(4) show ?thesis by (simp add: p rid_olds new)
    next
      case False
      with D(4) show ?thesis by (simp add: p rid_olds)
    qed
    show "rid q < next_rid st2" if "q \<in> set (pending st2)" for q
    proof (cases "q \<in> set olds")
      case True
      then show ?thesis using olds_lt [of q] nr by simp
    next
      case False
      with that p have "q = new" by (auto split: if_splits)
      then show ?thesis using new nr by simp
    qed
    show "cancelled q \<longleftrightarrow> rid q + 1 \<noteq> next_rid st2" if "q \<in> set (pending st2)" for q
    proof (cases "q \<in> set olds")
      case True
      then show ?thesis using olds_lt [of q] olds_cancelled [of q] nr by simp
    next
      case False
      with that p have "q = new" by (auto split: if_splits)
      then show ?thesis using new nr by simp
    qed
    show "loading st2 \<longleftrightarrow> (\<exists>q \<in> set (pending st2). rid q + 1 = next_rid st2)"
    proof
      assume "loading st2"
      then have "new \<in> set (pending st2)" by (simp add: p)
      then show "\<exists>q \<in> set (pending st2). rid q + 1 = next_rid st2"
        using new nr by auto
    next
      assume "\<exists>q \<in> set (pending st2). rid q + 1 = next_rid st2"
      then obtain q where q: "q \<in> set (pending st2)" "rid q + 1 = next_rid st2" by blast
      have "q \<notin> set olds"
        using olds_lt [of q] q(2) nr by auto
      with q(1) p show "loading st2" by (auto split: if_splits)
    qed
    show "error st2 = [] \<and> cleanup st2 = Some (next_rid st2 - 1)" if "loading st2"
      using that err cl nr by simp
    show "c + 1 = next_rid st2" if "cleanup st2 = Some c" for c
      using that cl nr by simp
    show "deps st2 = deps_of v st2" by (rule dp)
  qed
qed


lemma inv_frame:
  assumes inv: "controller_inv cfg v st0"
    and frame: "pending st = pending st0" "loading st = loading st0" "error st = error st0"
      "cleanup st = cleanup st0" "next_rid st = next_rid st0" "totalPages st = totalPages st0"
    and page: "1 \<le> page st"
    and dp: "deps st = deps_of v st"
  shows "controller_inv cfg v st"
proof -
  note D = controller_invD [OF inv]
  show ?thesis
  proof (rule controller_invI)
    show "1 \<le> page st" by (rule page)
    show "totalPages st = 0" if "v = MovieJs"
      using that D(2) frame by simp
    show "pending st = []" if "\<not> truthy (API_KEY cfg)"
      using that D(3) frame by simp
    show "distinct (map rid (pending st))"
      using D(4) frame by simp
    show "rid q < next_rid st" if "q \<in> set (pending st)" for q
      using that D(5) [of q] frame by simp
    show "cancelled q \<longleftrightarrow> rid q + 1 \<noteq> next_rid st" if "q \<in> set (pending st)" for q
      using that D(6) [of q] frame by simp
    show "loading st \<longleftrightarrow> (\<exists>q \<in> set (pending st). rid q + 1 = next_rid st)"
      using D(7) frame by simp
    show "error st = [] \<and> cleanup st = Some (next_rid st - 1)" if "loading st"
      using that D(8) frame by simp
    show "c + 1 = next_rid st" if "cleanup st = Some c" for c
      using that D(9) [of c] frame by simp
    show "deps st = deps_of v st" by (rule dp)
  qed
qed

text \<open>
  The render after a handler: \<open>st0\<close> is a state of the invariant and \<open>st\<close> the state the
  handler leaves, which differs from \<open>st0\<close> in the user's fields only.
\<close>

lemma commit_inv:
  assumes inv: "controller_inv cfg v st0"
    and frame: "pending st = pending st0" "loading st = loading st0" "error st = error st0"
      "cleanup st = cleanup st0" "next_rid st = next_rid st0" "totalPages st = totalPages st0"
    and page: "1 \<le> page st"
  shows "controller_inv cfg v (commit cfg v st)"
proof (cases "deps_of v st = deps st")
  case True
  then have "commit cfg v st = st" by (simp add: commit_def)
  moreover have "controller_inv cfg v st"
    using inv frame page True [symmetric] by (rule inv_frame)
  ultimately show ?thesis by simp
next
  case False
  note D = controller_invD [OF inv]
  let ?st1 = "(run_cleanup st)\<lparr>deps := deps_of v st\<rparr>"
  have c: "commit cfg v st = effect cfg v ?st1"
    using False by (simp add: commit_def)
  have d1: "deps_of v (run_cleanup st) = deps_of v st"
    by (rule deps_of_cong) (simp_all add: run_cleanup_frame)
  show ?thesis
  proof (cases "truthy (API_KEY cfg)")
    case nokey: False
    have e: "effect cfg v ?st1 = ?st1\<lparr>error := missing_key_message, cleanup := None\<rparr>"
      using nokey by (rule effect_nokey)
    have empty: "pending st0 = []"
      using D(3) nokey by simp
    then have idle: "\<not> loading st0"
      using D(7) by simp
    have "controller_inv cfg v (?st1\<lparr>error := missing_key_message, cleanup := None\<rparr>)"
      by (rule controller_invI)
         (use D(2) page empty idle frame d1 in
           \<open>simp_all add: run_cleanup_frame run_cleanup_pending deps_of_update\<close>)
    with c e show ?thesis by simp
  next
    case key: True
    show ?thesis
    proof (cases "request_url v (the (API_KEY cfg)) (query ?st1) (page ?st1) (sort' ?st1)")
      case None
      have "controller_inv cfg v (effect cfg v ?st1)"
        unfolding effect_throw [OF key None]
        by (rule supersede_inv [OF inv key])
           (use page frame d1 in
             \<open>simp_all add: run_cleanup_frame run_cleanup_pending deps_of_update\<close>)
      with c show ?thesis by simp
    next
      case (Some u)
      have "controller_inv cfg v (effect cfg v ?st1)"
        unfolding effect_launch [OF key Some]
        by (rule supersede_inv [OF inv key, where u = u])
           (use page frame d1 in
             \<open>simp_all add: run_cleanup_frame run_cleanup_pending deps_of_update\<close>)
      with c show ?thesis by simp
    qed
  qed
qed


lemmas handler_defs = handle_def handleSubmit_def handleClear_def
  handleSearchInputChange_def handleKeyPress_def Let_def

lemma handle_frame:
  "pending (handle v st ev) = pending st"
  "loading (handle v st ev) = loading st"
  "error (handle v st ev) = error st"
  "cleanup (handle v st ev) = cleanup st"
  "next_rid (handle v st ev) = next_rid st"
  "totalPages (handle v st ev) = totalPages st"
  "movies (handle v st ev) = movies st"
  "deps (handle v st ev) = deps st"
  by (cases ev; cases v; simp add: handler_defs)+

lemma handle_page: "1 \<le> page st \<Longrightarrow> 1 \<le> page (handle v st ev)"
  by (cases ev; cases v; simp add: handler_defs)

lemma commit_fixed: "deps st = deps_of v st \<Longrightarrow> commit cfg v st = st"
  by (simp add: commit_def)

lemma step_Resolve: "step cfg v st (Resolve r oc) = commit cfg v (resolve cfg v st r oc)"
  by (simp add: step_def)

lemma step_handle:
  "(\<And>r oc. ev \<noteq> Resolve r oc) \<Longrightarrow> step cfg v st ev = commit cfg v (handle v st ev)"
  by (cases ev) (auto simp: step_def)

lemma step_Resolve_inv:
  "controller_inv cfg v st \<Longrightarrow> step cfg v st (Resolve r oc) = resolve cfg v st r oc"
  using controller_invD(10) [OF resolve_inv, of cfg v st r oc]
  by (simp add: step_Resolve commit_fixed)

lemma step_inv:
  assumes inv: "controller_inv cfg v st"
  shows "controller_inv cfg v (step cfg v st ev)"
proof (cases "\<exists>r oc. ev = Resolve r oc")
  case True
  then show ?thesis
    using resolve_inv [OF inv] step_Resolve_inv [OF inv] by auto
next
  case False
  then have "step cfg v st ev = commit cfg v (handle v st ev)"
    by (intro step_handle) blast
  moreover have "controller_inv cfg v (commit cfg v (handle v st ev))"
    by (rule commit_inv [OF inv])
       (simp_all add: handle_frame handle_page controller_invD(1) [OF inv])
  ultimately show ?thesis by simp
qed

lemma init_inv: "controller_inv cfg v ((init v)\<lparr>deps := deps_of v (init v)\<rparr>)"
  by (rule controller_invI; cases v; simp add: init_def deps_of_def)

lemma mount_inv: "controller_inv cfg v (mount cfg v)"
proof -
  let ?st = "(init v)\<lparr>deps := deps_of v (init v)\<rparr>"
  show ?thesis
  proof (cases "truthy (API_KEY cfg)")
    case False
    show ?thesis
      unfolding mount_def effect_nokey [OF False]
      by (rule controller_invI; cases v; simp add: init_def deps_of_def)
  next
    case key: True
    show ?thesis
    proof (cases "request_url v (the (API_KEY cfg)) (query ?st) (page ?st) (sort' ?st)")
      case None
      show ?thesis
        unfolding mount_def effect_throw [OF key None]
        by (rule supersede_inv [OF init_inv key]; cases v; simp add: init_def deps_of_def)
    next
      case (Some u)
      show ?thesis
        unfolding mount_def effect_launch [OF key Some]
        by (rule supersede_inv [OF init_inv key, where u = u]; cases v;
            simp add: init_def deps_of_def)
    qed
  qed
qed

lemma run_snoc: "run cfg v (evs @ [ev]) = step cfg v (run cfg v evs) ev"
  by (simp add: run_def)

lemma run_inv: "controller_inv cfg v (run cfg v evs)"
proof (induction evs rule: rev_induct)
  case Nil
  show ?case by (simp add: run_def mount_inv)
next
  case (snoc ev evs)
  then show ?case by (simp add: run_snoc step_inv)
qed

section \<open>Resolutions\<close>

lemma resolve_stale:
  assumes inv: "controller_inv cfg v st"
    and x: "x \<in> set (pending st)" and old: "rid x + 1 \<noteq> next_rid st"
  shows "resolve cfg v st (rid x) oc = st\<lparr>pending := filter (\<lambda>q. rid q \<noteq> rid x) (pending st)\<rparr>"
proof -
  note D = controller_invD [OF inv]
  obtain q where q: "find (\<lambda>q. rid q = rid x) (pending st) = Some q"
    using x by (cases "find (\<lambda>q. rid q = rid x) (pending st)") (auto simp: find_None_iff)
  then have "q \<in> set (pending st)" "rid q = rid x"
    using find_rid by blast+
  then have "cancelled q"
    using D(6) [of q] old by simp
  with q show ?thesis by (simp add: resolve_def)
qed

lemma resolve_current:
  assumes inv: "controller_inv cfg v st"
    and y: "y \<in> set (pending st)" and cur: "rid y + 1 = next_rid st"
  shows "resolve cfg v st (rid y) oc =
         settle cfg v (st\<lparr>pending := filter (\<lambda>q. rid q \<noteq> rid y) (pending st)\<rparr>) oc"
proof -
  note D = controller_invD [OF inv]
  obtain q where q: "find (\<lambda>q. rid q = rid y) (pending st) = Some q"
    using y by (cases "find (\<lambda>q. rid q = rid y) (pending st)") (auto simp: find_None_iff)
  then have "q \<in> set (pending st)" "rid q = rid y"
    using find_rid by blast+
  then have "\<not> cancelled q"
    using D(6) [of q] cur by simp
  with q show ?thesis by (simp add: resolve_def)
qed

lemma shown_settle:
  "shown (settle cfg v (st\<lparr>pending := ps\<rparr>) oc) = shown (settle cfg v st oc)"
  by (simp add: shown_def settle_def split: outcome.split body.split variant.split)

lemma shown_pending: "shown (st\<lparr>pending := ps\<rparr>) = shown st"
  by (simp add: shown_def)

lemma find_filter_other:
  "r \<noteq> x \<Longrightarrow> find (\<lambda>q. rid q = r) (filter (\<lambda>q. rid q \<noteq> x) ps) = find (\<lambda>q. rid q = r) ps"
  by (induction ps) auto

lemma find_filter_same: "find (\<lambda>q. rid q = x) (filter (\<lambda>q. rid q \<noteq> x) ps) = None"
  by (induction ps) auto

lemma shown_resolve_filtered:
  "shown (resolve cfg v (st\<lparr>pending := filter (\<lambda>q. rid q \<noteq> x) (pending st)\<rparr>) r oc) =
   (if r = x then shown st else shown (resolve cfg v st r oc))"
proof (cases "r = x")
  case True
  then show ?thesis
    by (simp add: resolve_def find_filter_same shown_pending)
next
  case False
  then show ?thesis
    by (cases "find (\<lambda>q. rid q = r) (pending st)")
       (simp_all add: resolve_def find_filter_other shown_pending shown_settle Let_def)
qed

text \<open>
  C1. In every state the component reaches, when a request \<open>x\<close> is still unresolved and
  the effect has run again since it was issued (a later request number has been taken),
  the resolution of \<open>x\<close>, whatever its outcome, sets nothing: it only leaves the list of
  unresolved fetches. The result list, error message, loading flag and page count after
  any later resolution are what they would be had \<open>x\<close> never resolved.
\<close>

theorem superseded_resolution_noop:
  assumes st: "st = run cfg v evs"
    and x: "x \<in> set (pending st)" and later: "rid x + 1 < next_rid st"
  shows "step cfg v st (Resolve (rid x) ox) =
           st\<lparr>pending := filter (\<lambda>q. rid q \<noteq> rid x) (pending st)\<rparr> \<and>
         shown (step cfg v (step cfg v st (Resolve (rid x) ox)) (Resolve r oc)) =
           shown (step cfg v st (Resolve r oc))"
proof -
  have inv: "controller_inv cfg v st"
    unfolding st by (rule run_inv)
  let ?st' = "st\<lparr>pending := filter (\<lambda>q. rid q \<noteq> rid x) (pending st)\<rparr>"
  have 1: "step cfg v st (Resolve (rid x) oc') = ?st'" for oc'
    using resolve_stale [OF inv x] later by (simp add: step_Resolve_inv [OF inv])
  have inv': "controller_inv cfg v ?st'"
    using step_inv [OF inv, of "Resolve (rid x) ox"] 1 by simp
  have "shown (step cfg v ?st' (Resolve r oc)) = shown (step cfg v st (Resolve r oc))"
  proof (cases "r = rid x")
    case True
    have "shown (step cfg v st (Resolve r oc)) = shown st"
      using 1 [of oc] True by (simp add: shown_pending)
    then show ?thesis
      using True by (simp add: step_Resolve_inv [OF inv'] shown_resolve_filtered)
  next
    case False
    then show ?thesis
      by (simp add: step_Resolve_inv [OF inv'] step_Resolve_inv [OF inv] shown_resolve_filtered)
  qed
  with 1 show ?thesis by simp
qed


theorem superseded_resolution_noop_witness:
  "req_X \<in> set (pending st_XY) \<and> rid req_X + 1 < next_rid st_XY \<and>
   shown (step cfg_K MovieJs st_XY (Resolve 0 (Json (Body (ResultsArray [movie_A]) None)))) =
     shown st_XY \<and>
   movies (run cfg_K MovieJs
     [ChangeInput (ascii ''star''), Submit,
      Resolve 1 (Json (Body (ResultsArray [movie_B]) None)),
      Resolve 0 (Json (Body (ResultsArray [movie_A]) None))]) = [movie_B]"
proof -
  have p: "pending st_XY = [req_X, req_Y] \<and> next_rid st_XY = 2"
    by code_simp
  then have x: "req_X \<in> set (pending st_XY)" and later: "rid req_X + 1 < next_rid st_XY"
    by (simp_all add: req_X_def)
  have "shown (step cfg_K MovieJs st_XY (Resolve 0 (Json (Body (ResultsArray [movie_A]) None)))) =
      shown st_XY"
    using superseded_resolution_noop [OF st_XY_def x later]
    by (simp add: req_X_def shown_def)
  moreover have "movies (run cfg_K MovieJs
     [ChangeInput (ascii ''star''), Submit,
      Resolve 1 (Json (Body (ResultsArray [movie_B]) None)),
      Resolve 0 (Json (Body (ResultsArray [movie_A]) None))]) = [movie_B]"
    by code_simp
  ultimately show ?thesis
    using x later by simp
qed

section \<open>Outcomes of the current request\<close>

lemma step_current:
  assumes inv: "controller_inv cfg v st"
    and y: "y \<in> set (pending st)" and cur: "rid y + 1 = next_rid st"
  shows "step cfg v st (Resolve (rid y) oc) =
         settle cfg v (st\<lparr>pending := filter (\<lambda>q. rid q \<noteq> rid y) (pending st)\<rparr>) oc"
  using resolve_current [OF inv y cur] by (simp add: step_Resolve_inv [OF inv])

lemma current_loading:
  assumes inv: "controller_inv cfg v st"
    and y: "y \<in> set (pending st)" and cur: "rid y + 1 = next_rid st"
  shows "loading st \<and> error st = []"
  using controller_invD(7,8) [OF inv] y cur by blast

lemma or_else_nonempty: "d \<noteq> [] \<Longrightarrow> or_else x d \<noteq> []"
  by (cases x) (simp_all add: or_else_def)

lemma fallback_nonempty: "fallback_message \<noteq> []"
  by (simp add: fallback_message_def ascii_def)

text \<open>
  C8, as stated, fails in the first file: it has no page-count state, so when the request
  issued last succeeds with a body that carries \<open>total_pages\<close>, the results are stored and
  the page count is dropped.
\<close>

theorem page_count_dropped_counterexample:
  "pending st_XY = [req_X, req_Y] \<and> rid req_Y + 1 = next_rid st_XY \<and>
   movies (step cfg_K MovieJs st_XY
     (Resolve (rid req_Y) (Json (Body (ResultsArray [movie_A]) (Some 7))))) = [movie_A] \<and>
   totalPages (step cfg_K MovieJs st_XY
     (Resolve (rid req_Y) (Json (Body (ResultsArray [movie_A]) (Some 7))))) = 0"
  by code_simp

text \<open>
  C8, amended. In every state the component reaches, the resolution of the request issued
  last clears the loading flag and does exactly one of two things: on a response with a
  non-null JSON body it stores the results and the error message is empty, and the page
  count of the body is stored in the second file only (0 when the body has none), the
  first file keeping no page count; on a rejection, a non-success status or a null body
  it stores a non-empty error message and leaves the results and the page count as they
  are. So a message stored by an earlier failure is gone once a later request has
  succeeded.
\<close>

theorem current_resolution_outcome:
  assumes st: "st = run cfg v evs"
    and y: "y \<in> set (pending st)" and cur: "rid y + 1 = next_rid st"
  shows "let st' = step cfg v st (Resolve (rid y) oc) in
         \<not> loading st' \<and>
         (case oc of
            Json (Body res tp) \<Rightarrow>
              movies st' = (case res of ResultsArray ms \<Rightarrow> ms | ResultsOther \<Rightarrow> []) \<and>
              error st' = [] \<and>
              totalPages st' =
                (case v of MovieJs \<Rightarrow> totalPages st
                         | Part000 \<Rightarrow> (case tp of None \<Rightarrow> 0 | Some n \<Rightarrow> n))
          | _ \<Rightarrow> error st' \<noteq> [] \<and> movies st' = movies st \<and> totalPages st' = totalPages st)"
proof -
  have inv: "controller_inv cfg v st"
    unfolding st by (rule run_inv)
  have e: "error st = []"
    using current_loading [OF inv y cur] by simp
  show ?thesis
    unfolding step_current [OF inv y cur]
    by (simp add: settle_def e or_else_nonempty fallback_nonempty Let_def
        split: outcome.split body.split variant.split)
qed

theorem current_resolution_outcome_witness:
  "req_Y \<in> set (pending st_XY) \<and> rid req_Y + 1 = next_rid st_XY \<and>
   error (step cfg_K MovieJs st_XY (Resolve 1 (HttpError 500))) =
     ascii ''TMDB request failed (500)'' \<and>
   \<not> loading (step cfg_K MovieJs st_XY (Resolve 1 (HttpError 500))) \<and>
   shown (run cfg_K MovieJs
     [ChangeInput (ascii ''star''), Submit, Resolve 1 (HttpError 500), Clear,
      Resolve 2 (Json (Body (ResultsArray [movie_A]) (Some 7)))]) =
     ([movie_A], [], False, 0)"
proof -
  have p: "pending st_XY = [req_X, req_Y] \<and> next_rid st_XY = 2"
    by code_simp
  then have y: "req_Y \<in> set (pending st_XY)" and cur: "rid req_Y + 1 = next_rid st_XY"
    by (simp_all add: req_Y_def)
  have "\<not> loading (step cfg_K MovieJs st_XY (Resolve 1 (HttpError 500)))"
    using current_resolution_outcome [OF st_XY_def y cur, of "HttpError 500"]
    by (simp add: req_Y_def Let_def)
  moreover have "error (step cfg_K MovieJs st_XY (Resolve 1 (HttpError 500))) =
     ascii ''TMDB request failed (500)''"
    by code_simp
  moreover have "shown (run cfg_K MovieJs
     [ChangeInput (ascii ''star''), Submit, Resolve 1 (HttpError 500), Clear,
      Resolve 2 (Json (Body (ResultsArray [movie_A]) (Some 7)))]) =
     ([movie_A], [], False, 0)"
    by code_simp
  ultimately show ?thesis
    using y cur by simp
qed

text \<open>
  C10. When the request issued last resolves with a body whose \<open>results\<close> is not an array,
  the stored result list is the empty list.
\<close>

theorem malformed_results_stored_empty:
  assumes st: "st = run cfg v evs"
    and y: "y \<in> set (pending st)" and cur: "rid y + 1 = next_rid st"
  shows "movies (step cfg v st (Resolve (rid y) (Json (Body ResultsOther tp)))) = []"
proof -
  have inv: "controller_inv cfg v st"
    unfolding st by (rule run_inv)
  show ?thesis
    unfolding step_current [OF inv y cur] by (simp add: settle_def)
qed

theorem malformed_results_stored_empty_witness:
  "req_Y \<in> set (pending st_XY) \<and> rid req_Y + 1 = next_rid st_XY \<and>
   movies (step cfg_K MovieJs st_XY (Resolve 1 (Json (Body ResultsOther None)))) = []"
proof -
  have p: "pending st_XY = [req_X, req_Y] \<and> next_rid st_XY = 2"
    by code_simp
  then have y: "req_Y \<in> set (pending st_XY)" and cur: "rid req_Y + 1 = next_rid st_XY"
    by (simp_all add: req_Y_def)
  show ?thesis
    using malformed_results_stored_empty [OF st_XY_def y cur, of None] y cur
    by (simp add: req_Y_def)
qed

section \<open>Pager\<close>

lemma in_flight_loading:
  assumes inv: "controller_inv cfg v st"
  shows "in_flight st \<longleftrightarrow> loading st"
proof -
  note D = controller_invD [OF inv]
  have "in_flight st \<longleftrightarrow> (\<exists>q \<in> set (pending st). \<not> cancelled q)"
    by (simp add: in_flight_def list_ex_iff)
  also have "\<dots> \<longleftrightarrow> (\<exists>q \<in> set (pending st). rid q + 1 = next_rid st)"
    using D(6) by blast
  also have "\<dots> \<longleftrightarrow> loading st"
    using D(7) by simp
  finally show ?thesis .
qed

text \<open>
  C6. In every state the component reaches, Previous is disabled exactly when the page is
  1 or a load is in flight, and Next is disabled exactly when a load is in flight or a
  page count is known (positive) and the page has reached it. The first file keeps no
  page count.
\<close>

theorem pager_disabled:
  "(prev_disabled (run cfg v evs) \<longleftrightarrow>
      page (run cfg v evs) = 1 \<or> in_flight (run cfg v evs)) \<and>
   (next_disabled v (run cfg v evs) \<longleftrightarrow>
      in_flight (run cfg v evs) \<or>
      (0 < totalPages (run cfg v evs) \<and> totalPages (run cfg v evs) \<le> page (run cfg v evs)))"
proof -
  have inv: "controller_inv cfg v (run cfg v evs)"
    by (rule run_inv)
  show ?thesis
    using controller_invD(2) [OF inv] in_flight_loading [OF inv]
    by (cases v) (simp_all add: prev_disabled_def next_disabled_def)
qed

theorem pager_disabled_witness:
  "next_disabled Part000 (run cfg_K Part000
     [Resolve 0 (Json (Body (ResultsArray [movie_A]) (Some 2))), ClickNext,
      Resolve 1 (Json (Body (ResultsArray [movie_B]) (Some 2)))]) \<and>
   \<not> prev_disabled (run cfg_K Part000
     [Resolve 0 (Json (Body (ResultsArray [movie_A]) (Some 2))), ClickNext,
      Resolve 1 (Json (Body (ResultsArray [movie_B]) (Some 2)))]) \<and>
   \<not> in_flight (run cfg_K Part000
     [Resolve 0 (Json (Body (ResultsArray [movie_A]) (Some 2))), ClickNext,
      Resolve 1 (Json (Body (ResultsArray [movie_B]) (Some 2)))])"
proof -
  let ?st = "run cfg_K Part000
     [Resolve 0 (Json (Body (ResultsArray [movie_A]) (Some 2))), ClickNext,
      Resolve 1 (Json (Body (ResultsArray [movie_B]) (Some 2)))]"
  have "page ?st = 2 \<and> totalPages ?st = 2 \<and> \<not> in_flight ?st"
    by code_simp
  then show ?thesis
    using pager_disabled [of cfg_K Part000
      "[Resolve 0 (Json (Body (ResultsArray [movie_A]) (Some 2))), ClickNext,
        Resolve 1 (Json (Body (ResultsArray [movie_B]) (Some 2)))]"]
    by simp
qed


section \<open>Page number\<close>

lemma effect_user:
  "page (effect cfg v st) = page st"
  "query (effect cfg v st) = query st"
  "movies (effect cfg v st) = movies st"
  "sort' (effect cfg v st) = sort' st"
  by (simp_all add: effect_def Let_def split: option.split)

lemma commit_user:
  "page (commit cfg v st) = page st"
  "query (commit cfg v st) = query st"
  "movies (commit cfg v st) = movies st"
  "sort' (commit cfg v st) = sort' st"
  by (simp_all add: commit_def effect_user run_cleanup_frame)

lemma resolve_user:
  "page (resolve cfg v st r oc) = page st"
  "query (resolve cfg v st r oc) = query st"
  by (simp_all add: resolve_def settle_frame Let_def split: option.split)

lemma handle_query_page:
  "query (handle v st ev) \<noteq> query st \<Longrightarrow> page (handle v st ev) = 1"
  by (cases ev; cases v) (auto simp: handler_defs split: if_splits)

lemma handle_sets_query: "sets_query v ev \<Longrightarrow> page (handle v st ev) = 1"
  by (cases ev; cases v) (auto simp: sets_query_def handler_defs)

lemma step_sets_query:
  assumes "sets_query v ev"
  shows "page (step cfg v st ev) = 1"
proof -
  have "ev \<noteq> Resolve r oc" for r oc
    using assms by (cases v) (auto simp: sets_query_def)
  then have "step cfg v st ev = commit cfg v (handle v st ev)"
    by (rule step_handle)
  then show ?thesis
    using handle_sets_query [OF assms] by (simp add: commit_user)
qed

lemma step_query_page:
  "query (step cfg v st ev) \<noteq> query st \<Longrightarrow> page (step cfg v st ev) = 1"
  by (cases ev)
     (auto simp: step_def commit_user resolve_user dest: handle_query_page)

text \<open>
  C7. In every state the component reaches the page is at least 1, and every event whose
  handler sets the query, or after which the query differs, leaves the page at 1.
\<close>

theorem page_at_least_one:
  "1 \<le> page (run cfg v evs) \<and>
   (sets_query v ev \<or> query (step cfg v (run cfg v evs) ev) \<noteq> query (run cfg v evs) \<longrightarrow>
    page (step cfg v (run cfg v evs) ev) = 1)"
  using controller_invD(1) [OF run_inv, of cfg v evs]
    step_query_page [of cfg v "run cfg v evs" ev] step_sets_query [of v ev cfg "run cfg v evs"]
  by blast

theorem page_at_least_one_witness:
  "page (run cfg_K MovieJs
     [Resolve 0 (Json (Body (ResultsArray [movie_A]) None)), ClickNext,
      ChangeInput (ascii ''star'')]) = 2 \<and>
   query (step cfg_K MovieJs (run cfg_K MovieJs
     [Resolve 0 (Json (Body (ResultsArray [movie_A]) None)), ClickNext,
      ChangeInput (ascii ''star'')]) Submit) = ascii ''star'' \<and>
   page (step cfg_K MovieJs (run cfg_K MovieJs
     [Resolve 0 (Json (Body (ResultsArray [movie_A]) None)), ClickNext,
      ChangeInput (ascii ''star'')]) Submit) = 1"
proof -
  let ?evs = "[Resolve 0 (Json (Body (ResultsArray [movie_A]) None)), ClickNext,
      ChangeInput (ascii ''star'')]"
  have q: "page (run cfg_K MovieJs ?evs) = 2 \<and> query (run cfg_K MovieJs ?evs) = [] \<and>
      query (step cfg_K MovieJs (run cfg_K MovieJs ?evs) Submit) = ascii ''star''"
    by code_simp
  then have "query (step cfg_K MovieJs (run cfg_K MovieJs ?evs) Submit) \<noteq>
      query (run cfg_K MovieJs ?evs)"
    by (simp add: ascii_def)
  then have "page (step cfg_K MovieJs (run cfg_K MovieJs ?evs) Submit) = 1"
    using page_at_least_one [of cfg_K MovieJs ?evs Submit] by blast
  with q show ?thesis by simp
qed

section \<open>Changing the sort key\<close>




end
